theory Spec2Isabelle
  imports Complex_Main "HOL-Library.Multiset" "HOL-Library.Sublist"
begin

section \<open>Data model\<close>

text \<open>
  The script \<^verbatim>\<open>semdedup.py\<close> works on NumPy arrays. A one-dimensional array is a
  list of numbers, a two-dimensional array (one embedding per row) a list of rows, and the
  three-dimensional array that the keep list becomes a list of matrices. The entries are
  float32 in the script; the model reads them as real numbers, so it says nothing about
  rounding. Every exception a library call of the script can raise on the arrays it is
  given is a value of \<open>py_error\<close>, returned as \<open>Inl\<close>.
\<close>

type_synonym vec = "real list"
type_synonym matrix = "real list list"

datatype py_error = AssertionError | ValueError | IndexError

section \<open>Library calls used by the script\<close>

text \<open>
  \<^verbatim>\<open>a[i]\<close> on an array or list with a non-negative index: IndexError when the index is
  out of range.
\<close>

definition getitem :: "'a list \<Rightarrow> nat \<Rightarrow> py_error + 'a" where
  "getitem xs i = (if i < length xs then Inr (xs ! i) else Inl IndexError)"

text \<open>
  \<^verbatim>\<open>a[mask]\<close> with a one-dimensional boolean mask: the rows at which the mask is
  True, in their order; IndexError when the mask's length is not the number of rows.
\<close>

definition getitem_mask :: "'a list \<Rightarrow> bool list \<Rightarrow> py_error + 'a list" where
  "getitem_mask a bmask =
     (if length bmask \<noteq> length a then Inl IndexError
      else Inr (map fst (filter snd (zip a bmask))))"

text \<open>
  \<^verbatim>\<open>a[b]\<close> with a single boolean \<open>b\<close> (a NumPy bool scalar, not a mask): the result
  has one more axis in front, of length 1 when \<open>b\<close> is True (the whole of \<open>a\<close> is its
  only element) and of length 0 when \<open>b\<close> is False.
\<close>

definition getitem_bool :: "'a \<Rightarrow> bool \<Rightarrow> 'a list" where
  "getitem_bool a b = (if b then [a] else [])"

text \<open>
  \<^verbatim>\<open>scipy.spatial.distance.cdist(XA, XB, "euclidean")\<close> with a single row \<open>XB\<close>:
  the Euclidean distance of every row of \<open>XA\<close> to that row. ValueError when the column
  counts differ.
\<close>

definition euclidean :: "vec \<Rightarrow> vec \<Rightarrow> real" where
  "euclidean u v = sqrt (sum_list (map (\<lambda>(a, b). (a - b)\<^sup>2) (zip u v)))"

definition cdist :: "matrix \<Rightarrow> vec \<Rightarrow> py_error + real list" where
  "cdist XA centroid =
     (if list_ex (\<lambda>row. length row \<noteq> length centroid) XA then Inl ValueError
      else Inr (map (\<lambda>row. euclidean row centroid) XA))"

text \<open>
  \<^verbatim>\<open>np.argsort(distances, axis=0)\<close> on a column: the row indices in ascending order
  of their distance. NumPy's default sort does not fix the order of equal keys; the model
  keeps equal keys in index order.
\<close>

definition argsort :: "real list \<Rightarrow> nat list" where
  "argsort ds = sort_key (\<lambda>i. ds ! i) [0..<length ds]"

text \<open>
  \<^verbatim>\<open>sklearn.metrics.pairwise.cosine_similarity(X)\<close>: every row is divided by its
  Euclidean norm (a zero row is left as it is), then all pairwise dot products are taken.
  The input check of the library refuses an array with no row or no column (ValueError).
\<close>

definition dot :: "vec \<Rightarrow> vec \<Rightarrow> real" where
  "dot u v = sum_list (map (\<lambda>(a, b). a * b) (zip u v))"

definition l2_norm :: "vec \<Rightarrow> real" where
  "l2_norm v = sqrt (sum_list (map (\<lambda>a. a\<^sup>2) v))"

definition normalize_row :: "vec \<Rightarrow> vec" where
  "normalize_row v =
     (let n = l2_norm v; n = (if n = 0 then 1 else n) in map (\<lambda>a. a / n) v)"

definition cosine_similarity :: "matrix \<Rightarrow> py_error + matrix" where
  "cosine_similarity X =
     (if X = [] \<or> list_ex (\<lambda>row. row = []) X then Inl ValueError
      else (let X_normalized = map normalize_row X
            in Inr (map (\<lambda>u. map (\<lambda>v. dot u v) X_normalized) X_normalized)))"

text \<open>
  \<^verbatim>\<open>np.triu(m, k)\<close>: the entries on and above the \<open>k\<close>-th diagonal, zero
  elsewhere: entry \<open>(i, j)\<close> is kept when \<open>i + k \<le> j\<close>.
\<close>

definition triu :: "matrix \<Rightarrow> nat \<Rightarrow> matrix" where
  "triu m k =
     map (\<lambda>(i, row). map (\<lambda>(j, x). if i + k \<le> j then x else 0) (enumerate 0 row))
       (enumerate 0 m)"

text \<open>
  \<^verbatim>\<open>np.max(m, axis=0)\<close>: the maximum of every column. A maximum over an axis of
  length zero has no identity: ValueError when the matrix has no row.
\<close>

definition np_max_axis0 :: "matrix \<Rightarrow> py_error + real list" where
  "np_max_axis0 m =
     (case m of [] \<Rightarrow> Inl ValueError
      | row # rows \<Rightarrow> Inr (foldl (\<lambda>acc r. map (\<lambda>(a, b). max a b) (zip acc r)) row rows))"

section \<open>The helper \<open>sort_by_centroid_distance\<close>\<close>

definition sort_by_centroid_distance :: "matrix \<Rightarrow> vec \<Rightarrow> bool \<Rightarrow> py_error + matrix" where
  "sort_by_centroid_distance embeddings centroid descending =
     (case cdist embeddings centroid of Inl e \<Rightarrow> Inl e
      | Inr distances \<Rightarrow>
          (let sorted_indices = argsort distances;
               sorted_indices = (if descending then rev sorted_indices else sorted_indices)
           in Inr (map (\<lambda>i. embeddings ! i) sorted_indices)))"

section \<open>The pruning loop\<close>

text \<open>
  Lines 91 to 105 of the script, for cluster \<open>i\<close>: the rows labelled \<open>i\<close> are
  selected with the mask \<^verbatim>\<open>cluster_labels == i\<close>, ranked by their distance to
  \<^verbatim>\<open>cluster_centers[i]\<close>, their pairwise cosine similarities are cut to the strict
  upper triangle, and \<open>M\<close> is element 0 of the column maxima. The result is the ranked
  cluster together with \<open>M\<close>. The labels are the int64 labels of the index search.
\<close>

definition cluster_M :: "matrix \<Rightarrow> int list \<Rightarrow> matrix \<Rightarrow> nat \<Rightarrow> py_error + (matrix \<times> real)" where
  "cluster_M embeddings cluster_labels cluster_centers i =
     (case getitem_mask embeddings (map (\<lambda>l. l = int i) cluster_labels) of Inl e \<Rightarrow> Inl e
      | Inr cluster_i_embeddings \<Rightarrow>
     (case getitem cluster_centers i of Inl e \<Rightarrow> Inl e
      | Inr centroid \<Rightarrow>
     (case sort_by_centroid_distance cluster_i_embeddings centroid True of Inl e \<Rightarrow> Inl e
      | Inr cluster_i_embeddings \<Rightarrow>
     (case cosine_similarity cluster_i_embeddings of Inl e \<Rightarrow> Inl e
      | Inr pairwise_sim_matrix \<Rightarrow>
     (let triu_sim_matrix = triu pairwise_sim_matrix 1 in
     (case np_max_axis0 triu_sim_matrix of Inl e \<Rightarrow> Inl e
      | Inr column_max \<Rightarrow>
     (case getitem column_max 0 of Inl e \<Rightarrow> Inl e
      | Inr M \<Rightarrow> Inr (cluster_i_embeddings, M))))))))"

text \<open>
  Lines 108 to 111: \<^verbatim>\<open>M <= 1 - epsilon\<close> is one boolean, indexing the ranked cluster
  with it gives an array whose first axis has length 1 or 0, and \<^verbatim>\<open>extend\<close> appends
  the elements of that first axis to the keep list.
\<close>

definition cluster_pass ::
  "matrix \<Rightarrow> int list \<Rightarrow> matrix \<Rightarrow> real \<Rightarrow> nat \<Rightarrow> matrix list \<Rightarrow> py_error + matrix list" where
  "cluster_pass embeddings cluster_labels cluster_centers epsilon i points_to_keep =
     (case cluster_M embeddings cluster_labels cluster_centers i of Inl e \<Rightarrow> Inl e
      | Inr (cluster_i_embeddings, M) \<Rightarrow>
          (let points_to_keep_from_cluster_i = getitem_bool cluster_i_embeddings (M \<le> 1 - epsilon)
           in Inr (points_to_keep @ points_to_keep_from_cluster_i)))"

text \<open>
  The loop \<^verbatim>\<open>for i in range(num_clusters)\<close> (lines 87 to 111); an exception ends
  it. The script fixes \<^verbatim>\<open>num_clusters = 11000\<close> and \<^verbatim>\<open>epsilon = 0.09\<close>; here
  they are arguments, as are the labels and the centroids that the script obtains from the
  FAISS index.
\<close>

fun prune_loop ::
  "matrix \<Rightarrow> int list \<Rightarrow> matrix \<Rightarrow> real \<Rightarrow> nat list \<Rightarrow> matrix list \<Rightarrow> py_error + matrix list" where
  "prune_loop embeddings cluster_labels cluster_centers epsilon [] points_to_keep =
     Inr points_to_keep"
| "prune_loop embeddings cluster_labels cluster_centers epsilon (i # rest) points_to_keep =
     (case cluster_pass embeddings cluster_labels cluster_centers epsilon i points_to_keep of
        Inl e \<Rightarrow> Inl e
      | Inr points_to_keep' \<Rightarrow>
          prune_loop embeddings cluster_labels cluster_centers epsilon rest points_to_keep')"

definition points_to_keep ::
  "matrix \<Rightarrow> int list \<Rightarrow> matrix \<Rightarrow> nat \<Rightarrow> real \<Rightarrow> py_error + matrix list" where
  "points_to_keep embeddings cluster_labels cluster_centers num_clusters epsilon =
     prune_loop embeddings cluster_labels cluster_centers epsilon [0..<num_clusters] []"

text \<open>
  The members of cluster \<open>i\<close>, as positions in the embedding array: where the mask
  \<^verbatim>\<open>cluster_labels == i\<close> is True.
\<close>

definition cluster_members :: "int list \<Rightarrow> nat \<Rightarrow> nat list" where
  "cluster_members cluster_labels i =
     filter (\<lambda>n. map (\<lambda>l. l = int i) cluster_labels ! n) [0..<length cluster_labels]"

text \<open>
  Two notions used to state the properties of the loop: the rows of cluster \<open>i\<close>, in
  the order in which the mask selection of line 91 returns them (\<open>getitem_mask_labels\<close>
  below), and the shape of the arrays the script runs the loop on: \<open>d\<close> columns (at
  least one) in the embeddings and in the centroids, one label per embedding, one centroid
  per cluster.
\<close>

definition cluster_rows :: "matrix \<Rightarrow> int list \<Rightarrow> nat \<Rightarrow> matrix" where
  "cluster_rows embeddings cluster_labels i =
     map fst (filter (\<lambda>(row, l). l = int i) (zip embeddings cluster_labels))"

definition well_shaped :: "matrix \<Rightarrow> int list \<Rightarrow> matrix \<Rightarrow> nat \<Rightarrow> nat \<Rightarrow> bool" where
  "well_shaped embeddings cluster_labels cluster_centers num_clusters d =
     (0 < d \<and> length cluster_labels = length embeddings
      \<and> length cluster_centers = num_clusters
      \<and> list_all (\<lambda>row. length row = d) embeddings
      \<and> list_all (\<lambda>c. length c = d) cluster_centers)"

section \<open>The final projection\<close>

text \<open>
  \<^verbatim>\<open>np.array(points_to_keep)\<close> (line 115) on a list of matrices of one column
  count: an array of one more axis when all have the same number of rows; otherwise the
  shape is inhomogeneous, which NumPy (from 1.24) refuses with ValueError.
\<close>

definition np_array :: "matrix list \<Rightarrow> py_error + matrix list" where
  "np_array ps =
     (case ps of [] \<Rightarrow> Inr []
      | p # qs \<Rightarrow> if list_ex (\<lambda>q. length q \<noteq> length p) qs then Inl ValueError else Inr ps)"

text \<open>
  \<^verbatim>\<open>idx in a\<close> for an array \<open>a\<close> is \<^verbatim>\<open>(a == idx).any()\<close>: some entry of the
  array equals the number \<open>idx\<close>.
\<close>

definition array_contains :: "matrix list \<Rightarrow> nat \<Rightarrow> bool" where
  "array_contains a idx = list_ex (\<lambda>m. list_ex (\<lambda>row. list_ex (\<lambda>x. x = real idx) row) m) a"

text \<open>
  \<^verbatim>\<open>dataset.filter(lambda example, idx: idx in points_to_keep, with_indices=True)\<close>
  (lines 118 to 120): the examples whose position passes the test, in their order.
\<close>

definition filtered_dataset :: "'doc list \<Rightarrow> matrix list \<Rightarrow> 'doc list" where
  "filtered_dataset dataset kept =
     map snd (filter (\<lambda>(idx, example). array_contains kept idx) (enumerate 0 dataset))"

text \<open>Lines 87 to 120 together: the pruning loop, the conversion and the filter.\<close>

definition dedup ::
  "'doc list \<Rightarrow> matrix \<Rightarrow> int list \<Rightarrow> matrix \<Rightarrow> nat \<Rightarrow> real \<Rightarrow> py_error + 'doc list" where
  "dedup dataset embeddings cluster_labels cluster_centers num_clusters epsilon =
     (case points_to_keep embeddings cluster_labels cluster_centers num_clusters epsilon of
        Inl e \<Rightarrow> Inl e
      | Inr kept \<Rightarrow>
          (case np_array kept of Inl e \<Rightarrow> Inl e
           | Inr kept_array \<Rightarrow> Inr (filtered_dataset dataset kept_array)))"

section \<open>The length check after embedding\<close>

text \<open>
  Lines 26, 49 and 52: the length of the dataset is saved, the dataset is mapped through
  the embedding step (\<open>dataset_map\<close>, the \<^verbatim>\<open>datasets\<close> library's \<^verbatim>\<open>map\<close> with
  \<^verbatim>\<open>embed_text\<close>), and the assertion compares the two lengths. \<open>rest\<close> stands for
  the statements after the assertion (lines 54 to 123: normalisation, clustering, pruning
  and filtering), run on the mapped dataset.
\<close>

definition embed_and_check ::
  "('doc list \<Rightarrow> 'row list) \<Rightarrow> ('row list \<Rightarrow> py_error + 'out) \<Rightarrow> 'doc list \<Rightarrow> py_error + 'out" where
  "embed_and_check dataset_map rest dataset =
     (let original_length = length dataset;
          dataset' = dataset_map dataset
      in if original_length = length dataset' then rest dataset' else Inl AssertionError)"

section \<open>The cluster partitioner\<close>

text \<open>
  Modelled from the spec: the error values of the Cluster Partitioner (spec sections 4.1
  and 7). The script hands the partitioning to the FAISS library (\<^verbatim>\<open>faiss.Kmeans\<close>,
  \<^verbatim>\<open>train\<close> and \<^verbatim>\<open>index.search\<close>, lines 69 to 85); the library's code is not
  among the sources.
\<close>

datatype partition_error = InsufficientData | DimensionMismatch

text \<open>
  Modelled from the spec: the similarity of the assignment step, missing from the sources
  with the library. Section 4.1 prescribes cosine similarity, vectors and centroids being
  normalised.
\<close>

definition cosine :: "vec \<Rightarrow> vec \<Rightarrow> real" where
  "cosine u v = dot (normalize_row u) (normalize_row v)"

text \<open>
  Modelled from the spec: the search for the nearest centroid, missing from the sources
  with the library. ``Nearest'' is the highest cosine similarity (section 4.1); among
  equally similar centroids the first is taken. \<open>argmax_from best best_sim i sims\<close>
  scans the similarities of the centroids from position \<open>i\<close> on.
\<close>

fun argmax_from :: "nat \<Rightarrow> real \<Rightarrow> nat \<Rightarrow> real list \<Rightarrow> nat" where
  "argmax_from best best_sim i [] = best"
| "argmax_from best best_sim i (s # sims) =
     (if best_sim < s then argmax_from i s (Suc i) sims
      else argmax_from best best_sim (Suc i) sims)"

definition nearest_centroid :: "matrix \<Rightarrow> vec \<Rightarrow> nat" where
  "nearest_centroid centroids v =
     (case map (cosine v) centroids of [] \<Rightarrow> 0 | s # sims \<Rightarrow> argmax_from 0 s 1 sims)"

text \<open>
  Modelled from the spec: the check behind \<open>DimensionMismatch\<close>, missing from the
  sources with the library: all vectors share one dimension (sections 3 and 7).
\<close>

definition same_dimension :: "matrix \<Rightarrow> bool" where
  "same_dimension vectors =
     (case vectors of [] \<Rightarrow> True | v # vs \<Rightarrow> list_all (\<lambda>u. length u = length v) vs)"

text \<open>
  Modelled from the spec: the Cluster Partitioner of section 4.1, missing from the sources
  with the library. Given the vectors and the cluster count \<open>K\<close> it fails with
  \<open>InsufficientData\<close> when there are fewer vectors than clusters and with
  \<open>DimensionMismatch\<close> when the vectors do not share a dimension; otherwise it returns
  the centroids together with the assignment of every vector to its nearest centroid. The
  spec leaves the iteration-bounded refinement that produces the centroids open; it is the
  parameter \<open>train\<close>.
\<close>

definition partitioner ::
  "(matrix \<Rightarrow> nat \<Rightarrow> matrix) \<Rightarrow> matrix \<Rightarrow> nat \<Rightarrow> partition_error + (matrix \<times> int list)" where
  "partitioner train vectors K =
     (if length vectors < K then Inl InsufficientData
      else if \<not> same_dimension vectors then Inl DimensionMismatch
      else (let centroids = train vectors K
            in Inr (centroids, map (\<lambda>v. int (nearest_centroid centroids v)) vectors)))"

section \<open>The pruning rule of the spec\<close>

text \<open>
  From the spec's words (section 4.2, steps 3 and 4), for comparison with the loop of the
  script: over a similarity matrix of the ranked cluster, \<open>M(j)\<close> is the maximum
  similarity between member \<open>j\<close> and the members ranked before it, undefined for the
  first member; member \<open>j\<close> is kept iff it has no predecessor or \<open>M(j) \<le> 1 - \<epsilon>\<close>.
\<close>

definition spec_M :: "matrix \<Rightarrow> nat \<Rightarrow> real option" where
  "spec_M sim j =
     (case map (\<lambda>i. sim ! i ! j) [0..<j] of [] \<Rightarrow> None | s # ss \<Rightarrow> Some (foldl max s ss))"

definition spec_keep :: "matrix \<Rightarrow> real \<Rightarrow> nat \<Rightarrow> bool" where
  "spec_keep sim epsilon j = (case spec_M sim j of None \<Rightarrow> True | Some m \<Rightarrow> m \<le> 1 - epsilon)"

section \<open>Ranking by centroid distance\<close>

lemma mset_map_nth_sort_key:
  "mset (map (\<lambda>i. xs ! i) (sort_key f [0..<length xs])) = mset xs"
proof -
  have "mset (map (\<lambda>i. xs ! i) (sort_key f [0..<length xs]))
      = image_mset (\<lambda>i. xs ! i) (mset [0..<length xs])"
    by simp
  also have "\<dots> = mset (map (\<lambda>i. xs ! i) [0..<length xs])"
    by simp
  also have "\<dots> = mset xs"
    by (simp add: map_nth)
  finally show ?thesis .
qed

lemma sort_by_centroid_distance_Inr:
  assumes "list_all (\<lambda>row. length row = length centroid) embeddings"
  shows "sort_by_centroid_distance embeddings centroid descending =
     Inr (map (\<lambda>i. embeddings ! i)
       ((if descending then rev else (\<lambda>is. is))
          (argsort (map (\<lambda>row. euclidean row centroid) embeddings))))"
proof -
  have "\<not> list_ex (\<lambda>row. length row \<noteq> length centroid) embeddings"
    using assms by (simp add: list_all_iff list_ex_iff)
  then show ?thesis
    by (simp add: sort_by_centroid_distance_def cdist_def Let_def)
qed

lemma map_euclidean_ranked:
  "map (\<lambda>row. euclidean row c) (map (\<lambda>i. E ! i) (argsort (map (\<lambda>row. euclidean row c) E)))
   = map (\<lambda>i. map (\<lambda>row. euclidean row c) E ! i) (argsort (map (\<lambda>row. euclidean row c) E))"
proof -
  have "\<forall>i \<in> set (argsort (map (\<lambda>row. euclidean row c) E)). i < length E"
    by (simp add: argsort_def)
  then show ?thesis by (simp add: comp_def)
qed

lemma sorted_ranked_distances:
  "sorted (map (\<lambda>row. euclidean row c)
     (map (\<lambda>i. E ! i) (argsort (map (\<lambda>row. euclidean row c) E))))"
  unfolding map_euclidean_ranked
  by (simp add: argsort_def sorted_sort_key)

lemma sorted_le_last:
  fixes xs :: "real list"
  shows "sorted xs \<Longrightarrow> x \<in> set xs \<Longrightarrow> x \<le> last xs"
  by (induction xs) auto

lemma mset_ranked:
  "mset (map (\<lambda>i. E ! i) (argsort ds)) = mset E" if "length ds = length E"
  using that mset_map_nth_sort_key [of E "\<lambda>i. ds ! i"] by (simp add: argsort_def)

lemma ranked_descending:
  assumes "list_all (\<lambda>row. length row = length centroid) embeddings"
  shows "\<exists>ranked. sort_by_centroid_distance embeddings centroid True = Inr ranked
     \<and> mset ranked = mset embeddings
     \<and> sorted (rev (map (\<lambda>row. euclidean row centroid) ranked))
     \<and> list_all (\<lambda>row. euclidean row centroid \<le> euclidean (hd ranked) centroid) embeddings"
proof -
  let ?ds = "map (\<lambda>row. euclidean row centroid) embeddings"
  let ?asc = "map (\<lambda>i. embeddings ! i) (argsort ?ds)"
  let ?ranked = "rev ?asc"
  have ret: "sort_by_centroid_distance embeddings centroid True = Inr ?ranked"
    using sort_by_centroid_distance_Inr [OF assms, of True] by (simp add: rev_map)
  have perm: "mset ?ranked = mset embeddings"
    using mset_ranked [of ?ds embeddings] by simp
  have srt: "sorted (rev (map (\<lambda>row. euclidean row centroid) ?ranked))"
    using sorted_ranked_distances [of centroid embeddings] by (simp add: rev_map)
  have far: "list_all (\<lambda>row. euclidean row centroid \<le> euclidean (hd ?ranked) centroid) embeddings"
  proof (cases "embeddings = []")
    case True
    then show ?thesis by simp
  next
    case False
    then have "length ?asc \<noteq> 0" by (simp add: argsort_def)
    then have ne: "?asc \<noteq> []" by fastforce
    have seteq: "set ?asc = set embeddings"
      using perm by (metis mset_eq_setD set_rev)
    have lastmap: "last (map (\<lambda>row. euclidean row centroid) ?asc)
        = euclidean (last ?asc) centroid"
      by (rule last_map [OF ne])
    have "\<forall>row \<in> set embeddings.
        euclidean row centroid \<le> euclidean (last ?asc) centroid"
    proof
      fix row
      assume "row \<in> set embeddings"
      then have "row \<in> set ?asc"
        using seteq by simp
      then have "euclidean row centroid \<in> set (map (\<lambda>row. euclidean row centroid) ?asc)"
        by (simp only: set_map) (rule imageI)
      then have "euclidean row centroid \<le> last (map (\<lambda>row. euclidean row centroid) ?asc)"
        by (rule sorted_le_last [OF sorted_ranked_distances])
      then show "euclidean row centroid \<le> euclidean (last ?asc) centroid"
        by (simp only: lastmap)
    qed
    then show ?thesis
      using ne by (simp add: list_all_iff hd_rev)
  qed
  from ret perm srt far show ?thesis by blast
qed

section \<open>The similarity reduction\<close>

lemma getitem_mask_labels:
  "length L = length E \<Longrightarrow>
   getitem_mask E (map (\<lambda>l. l = int i) L) = Inr (cluster_rows E L i)"
  by (simp add: getitem_mask_def cluster_rows_def zip_map2 filter_map comp_def case_prod_unfold)

lemma cosine_similarity_rows:
  assumes "cosine_similarity X = Inr P"
  shows "P \<noteq> [] \<and> list_all (\<lambda>r. r \<noteq> []) P"
proof -
  from assms have ne: "X \<noteq> []"
    by (auto simp: cosine_similarity_def split: if_splits)
  from assms have P: "P = map (\<lambda>u. map (\<lambda>v. dot u v) (map normalize_row X)) (map normalize_row X)"
    by (auto simp: cosine_similarity_def Let_def split: if_splits)
  show ?thesis using ne by (simp add: P list_all_iff)
qed

lemma triu_rows:
  assumes "list_all (\<lambda>r. r \<noteq> []) m"
  shows "list_all (\<lambda>r. r \<noteq> [] \<and> hd r = 0) (triu m 1)"
proof -
  have "r \<noteq> [] \<Longrightarrow> hd (map (\<lambda>(j, x). if i + 1 \<le> j then x else 0) (enumerate 0 r)) = (0::real)"
    for r :: "real list" and i :: nat
    by (cases r) simp_all
  then show ?thesis
    using assms by (auto simp: triu_def list_all_iff enumerate_eq_zip dest!: set_zip_rightD)
qed

lemma foldl_max_hd:
  "acc \<noteq> [] \<Longrightarrow> hd acc = (0::real) \<Longrightarrow> list_all (\<lambda>r. r \<noteq> [] \<and> hd r = 0) rows \<Longrightarrow>
   foldl (\<lambda>acc r. map (\<lambda>(a, b). max a b) (zip acc r)) acc rows \<noteq> []
   \<and> hd (foldl (\<lambda>acc r. map (\<lambda>(a, b). max a b) (zip acc r)) acc rows) = 0"
proof (induction rows arbitrary: acc)
  case Nil
  then show ?case by simp
next
  case (Cons r rows)
  from Cons.prems obtain a as b bs where "acc = a # as" "r = b # bs" "a = 0" "b = 0"
    by (cases acc; cases r) auto
  then have "map (\<lambda>(a, b). max a b) (zip acc r) \<noteq> []"
    "hd (map (\<lambda>(a, b). max a b) (zip acc r)) = 0"
    by simp_all
  with Cons.IH [of "map (\<lambda>(a, b). max a b) (zip acc r)"] Cons.prems(3)
  show ?case by simp
qed

lemma column_max_0:
  assumes "m \<noteq> []" "list_all (\<lambda>r. r \<noteq> [] \<and> hd r = 0) m"
  shows "\<exists>cm. np_max_axis0 m = Inr cm \<and> getitem cm 0 = Inr 0"
proof -
  from assms obtain r rs where m: "m = r # rs" by (cases m) auto
  with assms(2) have "r \<noteq> []" "hd r = 0" "list_all (\<lambda>r. r \<noteq> [] \<and> hd r = 0) rs"
    by simp_all
  from foldl_max_hd [OF this]
  have ne: "foldl (\<lambda>acc r. map (\<lambda>(a, b). max a b) (zip acc r)) r rs \<noteq> []"
    and h: "hd (foldl (\<lambda>acc r. map (\<lambda>(a, b). max a b) (zip acc r)) r rs) = 0"
    by simp_all
  from h have "foldl (\<lambda>acc r. map (\<lambda>(a, b). max a b) (zip acc r)) r rs ! 0 = 0"
    by (simp only: hd_conv_nth [OF ne])
  with ne show ?thesis
    by (simp add: np_max_axis0_def m getitem_def)
qed

lemma similarity_M_0:
  assumes "cosine_similarity X = Inr P"
  shows "\<exists>cm. np_max_axis0 (triu P 1) = Inr cm \<and> getitem cm 0 = Inr 0"
proof -
  from cosine_similarity_rows [OF assms] have P: "P \<noteq> []" and rows: "list_all (\<lambda>r. r \<noteq> []) P"
    by simp_all
  from P have "triu P 1 \<noteq> []"
    by (simp add: triu_def enumerate_eq_zip)
  then show ?thesis
    using triu_rows [OF rows] by (rule column_max_0)
qed

text \<open>What lines 91 to 105 compute, with the reduction to \<open>M\<close> evaluated.\<close>

lemma cluster_M_eq:
  assumes "length L = length E" "i < length C"
  shows "cluster_M E L C i =
    (case sort_by_centroid_distance (cluster_rows E L i) (C ! i) True of Inl e \<Rightarrow> Inl e
     | Inr ranked \<Rightarrow>
        (case cosine_similarity ranked of Inl e \<Rightarrow> Inl e | Inr P \<Rightarrow> Inr (ranked, 0)))"
proof (cases "sort_by_centroid_distance (cluster_rows E L i) (C ! i) True")
  case (Inl e)
  then show ?thesis
    using assms by (simp add: cluster_M_def getitem_mask_labels getitem_def)
next
  case (Inr ranked)
  show ?thesis
  proof (cases "cosine_similarity ranked")
    case (Inl e)
    then show ?thesis
      using assms Inr by (simp add: cluster_M_def getitem_mask_labels getitem_def)
  next
    case (Inr P)
    from similarity_M_0 [OF this] obtain cm
      where "np_max_axis0 (triu P 1) = Inr cm" "getitem cm 0 = Inr 0"
      by blast
    then show ?thesis
      using assms Inr \<open>sort_by_centroid_distance (cluster_rows E L i) (C ! i) True = Inr ranked\<close>
      by (simp add: cluster_M_def getitem_mask_labels getitem_def)
  qed
qed

lemma cluster_M_value:
  assumes "cluster_M E L C i = Inr (ranked, M)"
  shows "M = 0"
proof -
  from assms obtain r P cm where
    "cosine_similarity r = Inr P" "np_max_axis0 (triu P 1) = Inr cm" "getitem cm 0 = Inr M"
    by (auto simp: cluster_M_def Let_def split: sum.splits)
  with similarity_M_0 [of r P] show ?thesis by simp
qed

lemma cluster_rows_empty:
  "cluster_rows E L i = []" if "int i \<notin> set L"
  using that by (auto simp: cluster_rows_def filter_empty_conv dest: set_zip_rightD)

lemma cluster_rows_nonempty:
  "cluster_rows E L i \<noteq> []" if "int i \<in> set L" "length L = length E"
proof -
  from that obtain n where "n < length L" "L ! n = int i"
    by (auto simp: in_set_conv_nth)
  with that(2) have "(E ! n, int i) \<in> set (zip E L)"
    by (auto simp: set_zip)
  then show ?thesis
    by (auto simp: cluster_rows_def filter_empty_conv)
qed

lemma cluster_M_empty:
  assumes "length L = length E" "i < length C" "int i \<notin> set L"
  shows "cluster_M E L C i = Inl ValueError"
  using assms
  by (simp add: cluster_M_eq cluster_rows_empty sort_by_centroid_distance_def cdist_def
      argsort_def cosine_similarity_def)

lemma cluster_M_error:
  assumes "length L = length E" "i < length C" "cluster_M E L C i = Inl e"
  shows "e = ValueError"
  using assms
  by (auto simp: cluster_M_eq sort_by_centroid_distance_def cdist_def cosine_similarity_def Let_def
      split: sum.splits if_splits)

lemma cluster_rows_shape:
  "list_all (\<lambda>row. length row = d) E \<Longrightarrow> list_all (\<lambda>row. length row = d) (cluster_rows E L i)"
  by (auto simp: cluster_rows_def list_all_iff dest: set_zip_leftD)

lemma cluster_M_returns:
  assumes "well_shaped E L C K d" "i < K" "int i \<in> set L"
  shows "\<exists>ranked. sort_by_centroid_distance (cluster_rows E L i) (C ! i) True = Inr ranked
     \<and> mset ranked = mset (cluster_rows E L i) \<and> ranked \<noteq> []
     \<and> cluster_M E L C i = Inr (ranked, 0)"
proof -
  from assms have len: "length L = length E" "i < length C" and d: "0 < d"
    and E: "list_all (\<lambda>row. length row = d) E" and c: "length (C ! i) = d"
    by (auto simp: well_shaped_def list_all_iff)
  have sh: "list_all (\<lambda>row. length row = length (C ! i)) (cluster_rows E L i)"
    using cluster_rows_shape [OF E] c by simp
  from ranked_descending [OF sh] obtain ranked
    where r: "sort_by_centroid_distance (cluster_rows E L i) (C ! i) True = Inr ranked"
      and p: "mset ranked = mset (cluster_rows E L i)"
    by blast
  from p have s: "set ranked = set (cluster_rows E L i)"
    by (rule mset_eq_setD)
  from p cluster_rows_nonempty [OF assms(3) len(1)] have ne: "ranked \<noteq> []"
    by auto
  have "\<not> list_ex (\<lambda>row. row = []) ranked"
    using s sh c d by (auto simp: list_ex_iff list_all_iff)
  with ne obtain P where "cosine_similarity ranked = Inr P"
    by (simp add: cosine_similarity_def Let_def)
  with r p ne show ?thesis
    by (simp add: cluster_M_eq [OF len])
qed


section \<open>The loop over the clusters\<close>

lemma cluster_pass_eq:
  "cluster_pass E L C eps i acc =
     (case cluster_M E L C i of Inl e \<Rightarrow> Inl e
      | Inr (ranked, M) \<Rightarrow> Inr (acc @ getitem_bool ranked (eps \<le> 1)))"
proof (cases "cluster_M E L C i")
  case (Inl e)
  then show ?thesis by (simp add: cluster_pass_def)
next
  case (Inr p)
  obtain ranked M where p: "p = (ranked, M)" by (cases p)
  with Inr cluster_M_value have "M = 0" by blast
  with Inr p show ?thesis by (simp add: cluster_pass_def)
qed

lemma prune_loop_grows:
  "prune_loop E L C eps js acc = Inr kept \<Longrightarrow> \<exists>more. kept = acc @ more"
proof (induction js arbitrary: acc)
  case Nil
  then show ?case by simp
next
  case (Cons j js)
  then obtain acc' where a: "cluster_pass E L C eps j acc = Inr acc'"
    and l: "prune_loop E L C eps js acc' = Inr kept"
    by (auto split: sum.splits)
  from a obtain k where "acc' = acc @ k"
    by (auto simp: cluster_pass_eq split: sum.splits)
  with Cons.IH [OF l] show ?case by auto
qed

lemma prune_loop_keeps_cluster:
  assumes "prune_loop E L C eps js acc = Inr kept" "i \<in> set js" "eps \<le> 1"
    "cluster_M E L C i = Inr (ranked, M)"
  shows "ranked \<in> set kept"
  using assms(1,2)
proof (induction js arbitrary: acc)
  case Nil
  then show ?case by simp
next
  case (Cons j js)
  then obtain acc' where a: "cluster_pass E L C eps j acc = Inr acc'"
    and l: "prune_loop E L C eps js acc' = Inr kept"
    by (auto split: sum.splits)
  show ?case
  proof (cases "j = i")
    case True
    with a assms(3,4) have "acc' = acc @ [ranked]"
      by (simp add: cluster_pass_eq getitem_bool_def)
    with prune_loop_grows [OF l] show ?thesis by auto
  next
    case False
    with Cons.prems have "i \<in> set js" by simp
    from Cons.IH [OF l this] show ?thesis .
  qed
qed

lemma prune_loop_antimono:
  assumes "eps1 \<le> eps2"
  shows "prune_loop E L C eps2 js acc2 = Inr kept2 \<Longrightarrow> subseq acc2 acc1 \<Longrightarrow>
    \<exists>kept1. prune_loop E L C eps1 js acc1 = Inr kept1 \<and> subseq kept2 kept1"
proof (induction js arbitrary: acc1 acc2)
  case Nil
  then show ?case by simp
next
  case (Cons j js)
  from Cons.prems(1) obtain acc2' where a2: "cluster_pass E L C eps2 j acc2 = Inr acc2'"
    and l2: "prune_loop E L C eps2 js acc2' = Inr kept2"
    by (auto split: sum.splits)
  from a2 obtain ranked M where m: "cluster_M E L C j = Inr (ranked, M)"
    and acc2': "acc2' = acc2 @ getitem_bool ranked (eps2 \<le> 1)"
    by (auto simp: cluster_pass_eq split: sum.splits)
  from m have a1: "cluster_pass E L C eps1 j acc1 = Inr (acc1 @ getitem_bool ranked (eps1 \<le> 1))"
    by (simp add: cluster_pass_eq)
  have "subseq (getitem_bool ranked (eps2 \<le> 1)) (getitem_bool ranked (eps1 \<le> 1))"
    using assms by (simp add: getitem_bool_def)
  with Cons.prems(2) have "subseq acc2' (acc1 @ getitem_bool ranked (eps1 \<le> 1))"
    unfolding acc2' by (rule list_emb_append_mono)
  from Cons.IH [OF l2 this] a1 show ?case by simp
qed

lemma prune_loop_all:
  assumes "well_shaped E L C K d" "eps \<le> 1"
  shows "list_all (\<lambda>i. i < K \<and> int i \<in> set L) js \<Longrightarrow>
    \<exists>kept. prune_loop E L C eps js acc = Inr (acc @ kept)
      \<and> list_all2 (\<lambda>ranked i.
            sort_by_centroid_distance (cluster_rows E L i) (C ! i) True = Inr ranked) kept js
      \<and> mset (concat kept) = sum_list (map (\<lambda>i. mset (cluster_rows E L i)) js)"
proof (induction js arbitrary: acc)
  case Nil
  then show ?case by simp
next
  case (Cons j js)
  then have j: "j < K" "int j \<in> set L" and js: "list_all (\<lambda>i. i < K \<and> int i \<in> set L) js"
    by simp_all
  from cluster_M_returns [OF assms(1) j] obtain ranked
    where r: "sort_by_centroid_distance (cluster_rows E L j) (C ! j) True = Inr ranked"
      and p: "mset ranked = mset (cluster_rows E L j)"
      and m: "cluster_M E L C j = Inr (ranked, 0)"
    by blast
  from m assms(2) have a: "cluster_pass E L C eps j acc = Inr (acc @ [ranked])"
    by (simp add: cluster_pass_eq getitem_bool_def)
  from Cons.IH [OF js, of "acc @ [ranked]"] obtain kept
    where "prune_loop E L C eps js (acc @ [ranked]) = Inr ((acc @ [ranked]) @ kept)"
      "list_all2 (\<lambda>ranked i.
          sort_by_centroid_distance (cluster_rows E L i) (C ! i) True = Inr ranked) kept js"
      "mset (concat kept) = sum_list (map (\<lambda>i. mset (cluster_rows E L i)) js)"
    by blast
  with a r p have "prune_loop E L C eps (j # js) acc = Inr (acc @ (ranked # kept))
      \<and> list_all2 (\<lambda>ranked i.
            sort_by_centroid_distance (cluster_rows E L i) (C ! i) True = Inr ranked)
          (ranked # kept) (j # js)
      \<and> mset (concat (ranked # kept)) = sum_list (map (\<lambda>i. mset (cluster_rows E L i)) (j # js))"
    by simp
  then show ?case by blast
qed

lemma prune_loop_empty_cluster:
  assumes "length L = length E"
  shows "list_all (\<lambda>j. j < length C) js \<Longrightarrow> i \<in> set js \<Longrightarrow> int i \<notin> set L \<Longrightarrow>
    prune_loop E L C eps js acc = Inl ValueError"
proof (induction js arbitrary: acc)
  case Nil
  then show ?case by simp
next
  case (Cons j js)
  then have j: "j < length C" and js: "list_all (\<lambda>j. j < length C) js"
    by simp_all
  show ?case
  proof (cases "cluster_pass E L C eps j acc")
    case (Inl e)
    then have "cluster_M E L C j = Inl e"
      by (auto simp: cluster_pass_eq split: sum.splits)
    from cluster_M_error [OF assms j this] Inl show ?thesis by simp
  next
    case (Inr acc')
    then have "cluster_M E L C j \<noteq> Inl ValueError"
      by (auto simp: cluster_pass_eq)
    with cluster_M_empty [OF assms j] Cons.prems(3) have "j \<noteq> i" by blast
    with Cons.prems have "i \<in> set js" by simp
    from Cons.IH [OF js this Cons.prems(3)] Inr show ?thesis by simp
  qed
qed

lemma mset_filter_split:
  "(\<And>x. \<not> (P x \<and> Q x)) \<Longrightarrow>
   mset (filter P xs) + mset (filter Q xs) = mset (filter (\<lambda>x. P x \<or> Q x) xs)"
  by (induction xs) auto

lemma sum_cluster_filters:
  "sum_list (map (\<lambda>i. mset (filter (\<lambda>(row, l). l = int i) zs)) [0..<K])
   = mset (filter (\<lambda>(row, l). 0 \<le> l \<and> l < int K) zs)"
proof (induction K)
  case 0
  then show ?case by (simp add: case_prod_unfold)
next
  case (Suc K)
  have "mset (filter (\<lambda>(row, l). 0 \<le> l \<and> l < int K) zs) + mset (filter (\<lambda>(row, l). l = int K) zs)
      = mset (filter (\<lambda>x. (case x of (row, l) \<Rightarrow> 0 \<le> l \<and> l < int K) \<or> (case x of (row, l) \<Rightarrow> l = int K)) zs)"
    by (rule mset_filter_split) auto
  also have "\<dots> = mset (filter (\<lambda>(row, l). 0 \<le> l \<and> l < int (Suc K)) zs)"
    by (rule arg_cong [where f = mset], rule filter_cong) auto
  finally show ?case using Suc by simp
qed

lemma clusters_cover:
  assumes "length L = length E" "list_all (\<lambda>l. 0 \<le> l \<and> l < int K) L"
  shows "sum_list (map (\<lambda>i. mset (cluster_rows E L i)) [0..<K]) = mset E"
proof -
  have "sum_list (map (\<lambda>i. mset (cluster_rows E L i)) [0..<K])
      = image_mset fst (sum_list (map (\<lambda>i. mset (filter (\<lambda>(row, l). l = int i) (zip E L))) [0..<K]))"
    by (induction K) (simp_all add: cluster_rows_def)
  also have "\<dots> = image_mset fst (mset (filter (\<lambda>(row, l). 0 \<le> l \<and> l < int K) (zip E L)))"
    by (simp only: sum_cluster_filters)
  also have "filter (\<lambda>(row, l). 0 \<le> l \<and> l < int K) (zip E L) = zip E L"
    using assms(2) by (auto simp: list_all_iff filter_id_conv dest: set_zip_rightD)
  also have "image_mset fst (mset (zip E L)) = mset E"
    using assms(1) by (metis map_fst_zip mset_map)
  finally show ?thesis .
qed

lemma subseq_concat:
  "subseq xs ys \<Longrightarrow> subseq (concat xs) (concat ys)"
  by (induction rule: list_emb.induct) (simp_all add: subseq_append' list_emb_append2)

lemma prune_loop_error_indep:
  "prune_loop E L C eps1 js acc1 = Inl e \<Longrightarrow> prune_loop E L C eps2 js acc2 = Inl e"
proof (induction js arbitrary: acc1 acc2)
  case Nil
  then show ?case by simp
next
  case (Cons j js)
  show ?case
  proof (cases "cluster_M E L C j")
    case (Inl e')
    with Cons.prems show ?thesis by (simp add: cluster_pass_eq)
  next
    case (Inr p)
    obtain ranked M where "p = (ranked, M)" by (cases p)
    with Inr Cons.prems
    have "prune_loop E L C eps1 js (acc1 @ getitem_bool ranked (eps1 \<le> 1)) = Inl e"
      by (simp add: cluster_pass_eq)
    from Cons.IH [OF this, of "acc2 @ getitem_bool ranked (eps2 \<le> 1)"] Inr \<open>p = (ranked, M)\<close>
    show ?thesis by (simp add: cluster_pass_eq)
  qed
qed

lemmas eval_simps = sort_by_centroid_distance_def cdist_def euclidean_def argsort_def
  cosine_similarity_def normalize_row_def l2_norm_def dot_def triu_def np_max_axis0_def
  getitem_def getitem_mask_def getitem_bool_def cluster_M_def cluster_pass_def
  points_to_keep_def enumerate_eq_zip Let_def upt_conv_Cons

section \<open>Cluster membership\<close>


lemma argmax_from_bound:
  "best < i \<Longrightarrow> argmax_from best best_sim i sims < i + length sims"
proof (induction sims arbitrary: best best_sim i)
  case Nil
  then show ?case by simp
next
  case (Cons s sims)
  have "argmax_from i s (Suc i) sims < Suc i + length sims"
    by (rule Cons.IH) simp
  moreover have "argmax_from best best_sim (Suc i) sims < Suc i + length sims"
    by (rule Cons.IH) (use Cons.prems in simp)
  ultimately show ?case by simp
qed

lemma nearest_centroid_bound:
  "centroids \<noteq> [] \<Longrightarrow> nearest_centroid centroids v < length centroids"
proof -
  assume "centroids \<noteq> []"
  then obtain c cs where c: "centroids = c # cs" by (cases centroids) auto
  have "argmax_from 0 (cosine v c) 1 (map (cosine v) cs) < 1 + length (map (cosine v) cs)"
    by (rule argmax_from_bound) simp
  then show ?thesis by (simp add: nearest_centroid_def c)
qed

lemma cluster_members_set:
  "set (cluster_members L i) = {n. n < length L \<and> L ! n = int i}"
  by (auto simp: cluster_members_def)

lemma members_cover:
  assumes "list_all (\<lambda>l. 0 \<le> l \<and> l < int K) L"
  shows "(\<Union>i<K. set (cluster_members L i)) = {0..<length L}"
proof (rule set_eqI)
  fix n
  show "n \<in> (\<Union>i<K. set (cluster_members L i)) \<longleftrightarrow> n \<in> {0..<length L}"
  proof
    assume "n \<in> (\<Union>i<K. set (cluster_members L i))"
    then show "n \<in> {0..<length L}" by (auto simp: cluster_members_set)
  next
    assume "n \<in> {0..<length L}"
    then have n: "n < length L" by simp
    with assms have "0 \<le> L ! n" "L ! n < int K" by (simp_all add: list_all_length)
    then obtain k where "L ! n = int k" "k < K"
      by (metis nonneg_int_cases of_nat_less_iff)
    with n have "n \<in> set (cluster_members L k)"
      by (simp add: cluster_members_set)
    with \<open>k < K\<close> show "n \<in> (\<Union>i<K. set (cluster_members L i))"
      by blast
  qed
qed

lemma members_disjoint:
  "i \<noteq> j \<Longrightarrow> set (cluster_members L i) \<inter> set (cluster_members L j) = {}"
  by (auto simp: cluster_members_set)

section \<open>Claims\<close>

text \<open>
  C1. The claim: for every member \<open>j\<close> of a ranked cluster the pass takes \<open>M(j)\<close>,
  the maximum cosine similarity between \<open>j\<close> and the members ranked before it, and
  keeps \<open>j\<close> iff \<open>M(j) \<le> 1 - \<epsilon>\<close>. The script takes element 0 of the column maxima
  instead, one number for the whole cluster, and it is 0 (\<open>cluster_M_value\<close>). On a
  cluster of two equal unit vectors with \<open>\<epsilon> = 0.09\<close> the similarity of the second
  member to the first is 1, so the rule of the spec discards the second member, while the
  loop of the script computes \<open>M = 0\<close> and keeps both rows.
\<close>

theorem pruning_keeps_duplicate:
  "cosine_similarity [[1, 0], [1, 0]] = Inr [[1, 1], [1, 1]]
   \<and> spec_M [[1, 1], [1, 1]] 1 = Some 1
   \<and> \<not> spec_keep [[1, 1], [1, 1]] (9 / 100) 1
   \<and> cluster_M [[1, 0], [1, 0]] [0, 0] [[1, 0]] 0 = Inr ([[1, 0], [1, 0]], 0)
   \<and> points_to_keep [[1, 0], [1, 0]] [0, 0] [[1, 0]] 1 (9 / 100) = Inr [[[1, 0], [1, 0]]]"
  by (simp add: eval_simps spec_M_def spec_keep_def)

text \<open>
  C2. The claim: the keep list holds original vector indices and the projection returns
  exactly the documents whose index is in it. The loop of the script appends the kept
  embedding rows themselves, and the filter then compares every document index with the
  entries of those rows. On two documents with the equal embeddings \<open>(0.6, 0.8)\<close> in one
  cluster the keep list holds both rows, no entry equals 0 or 1, and the filtered dataset
  is empty.
\<close>

theorem projection_compares_indices_with_entries:
  "points_to_keep [[3 / 5, 4 / 5], [3 / 5, 4 / 5]] [0, 0] [[3 / 5, 4 / 5]] 1 (9 / 100)
     = Inr [[[3 / 5, 4 / 5], [3 / 5, 4 / 5]]]
   \<and> dedup [''first'', ''second''] [[3 / 5, 4 / 5], [3 / 5, 4 / 5]] [0, 0] [[3 / 5, 4 / 5]] 1 (9 / 100)
     = Inr []"
  by (simp add: eval_simps dedup_def np_array_def filtered_dataset_def array_contains_def)

text \<open>
  C3. With \<open>\<epsilon>\<close> at its upper bound 1 (and for every \<open>\<epsilon> \<le> 1\<close>), on well-shaped
  arrays whose labels lie in \<open>[0, K)\<close> with no cluster left empty, the loop returns, for
  every cluster in turn, the whole ranked cluster, and the rows it keeps are all the
  embedding rows, each as often as it occurs: no member of any cluster is discarded.
\<close>

theorem keep_everything_at_upper_bound:
  assumes "well_shaped E L C K d"
    and "list_all (\<lambda>l. 0 \<le> l \<and> l < int K) L"
    and "list_all (\<lambda>i. int i \<in> set L) [0..<K]"
    and "eps \<le> 1"
  shows "\<exists>kept. points_to_keep E L C K eps = Inr kept
     \<and> list_all2 (\<lambda>ranked i.
           sort_by_centroid_distance (cluster_rows E L i) (C ! i) True = Inr ranked) kept [0..<K]
     \<and> mset (concat kept) = mset E"
proof -
  from assms(1) have len: "length L = length E" by (simp add: well_shaped_def)
  from assms(3) have "list_all (\<lambda>i. i < K \<and> int i \<in> set L) [0..<K]"
    by (simp add: list_all_iff)
  from prune_loop_all [OF assms(1,4) this, of "[]"] obtain kept
    where "prune_loop E L C eps [0..<K] [] = Inr kept"
      "list_all2 (\<lambda>ranked i.
          sort_by_centroid_distance (cluster_rows E L i) (C ! i) True = Inr ranked) kept [0..<K]"
      "mset (concat kept) = sum_list (map (\<lambda>i. mset (cluster_rows E L i)) [0..<K])"
    by auto
  with clusters_cover [OF len assms(2)] show ?thesis
    by (simp add: points_to_keep_def)
qed

theorem keep_everything_at_upper_bound_witness:
  "well_shaped [[1, 0], [0, 1], [1, 0]] [0, 1, 0] [[1, 0], [0, 1]] 2 2
   \<and> points_to_keep [[1, 0], [0, 1], [1, 0]] [0, 1, 0] [[1, 0], [0, 1]] 2 1
       = Inr [[[1, 0], [1, 0]], [[0, 1]]]
   \<and> (\<exists>kept. points_to_keep [[1, 0], [0, 1], [1, 0]] [0, 1, 0] [[1, 0], [0, 1]] 2 1 = Inr kept
        \<and> mset (concat kept) = mset [[1, 0], [0, 1], [1, 0]])"
proof -
  have ws: "well_shaped [[1, 0], [0, 1], [1, 0]] [0, 1, 0] [[1, 0], [0, 1]] 2 2"
    by (simp add: well_shaped_def)
  have val: "points_to_keep [[1, 0], [0, 1], [1, 0]] [0, 1, 0] [[1, 0], [0, 1]] 2 1
       = Inr [[[1, 0], [1, 0]], [[0, 1]]]"
    by (simp add: eval_simps)
  have "\<exists>kept. points_to_keep [[1, 0], [0, 1], [1, 0]] [0, 1, 0] [[1, 0], [0, 1]] 2 1 = Inr kept
        \<and> list_all2 (\<lambda>ranked i. sort_by_centroid_distance
              (cluster_rows [[1, 0], [0, 1], [1, 0]] [0, 1, 0] i) ([[1, 0], [0, 1]] ! i) True
              = Inr ranked) kept [0..<2]
        \<and> mset (concat kept) = mset [[1, 0], [0, 1], [1, 0]]"
    by (rule keep_everything_at_upper_bound [OF ws]) (simp_all add: upt_conv_Cons)
  with ws val show ?thesis by blast
qed

text \<open>
  C4. For fixed arrays and \<open>\<epsilon>\<^sub>1 \<le> \<epsilon>\<^sub>2\<close>: the loop fails at \<open>\<epsilon>\<^sub>1\<close> exactly when it
  fails at \<open>\<epsilon>\<^sub>2\<close>, with the same error, and when it returns at \<open>\<epsilon>\<^sub>2\<close> it returns at
  \<open>\<epsilon>\<^sub>1\<close> and what is kept at \<open>\<epsilon>\<^sub>2\<close> is a subsequence of what is kept at \<open>\<epsilon>\<^sub>1\<close>
  (cluster by cluster and row by row). So every member discarded at \<open>\<epsilon>\<^sub>1\<close> is
  discarded at \<open>\<epsilon>\<^sub>2\<close>.
\<close>

theorem keep_set_antimonotone:
  assumes "eps1 \<le> eps2"
  shows "(points_to_keep E L C K eps1 = Inl e \<longleftrightarrow> points_to_keep E L C K eps2 = Inl e)
    \<and> (points_to_keep E L C K eps2 = Inr kept2 \<longrightarrow>
         (\<exists>kept1. points_to_keep E L C K eps1 = Inr kept1
            \<and> subseq kept2 kept1 \<and> subseq (concat kept2) (concat kept1)))"
proof -
  have "\<exists>kept1. points_to_keep E L C K eps1 = Inr kept1
      \<and> subseq kept2 kept1 \<and> subseq (concat kept2) (concat kept1)"
    if "points_to_keep E L C K eps2 = Inr kept2"
  proof -
    from that have "prune_loop E L C eps2 [0..<K] [] = Inr kept2"
      by (simp add: points_to_keep_def)
    from prune_loop_antimono [OF assms this, of "[]"] obtain kept1
      where "prune_loop E L C eps1 [0..<K] [] = Inr kept1" "subseq kept2 kept1"
      by auto
    then show ?thesis
      using subseq_concat by (auto simp: points_to_keep_def)
  qed
  moreover have "points_to_keep E L C K eps1 = Inl e \<longleftrightarrow> points_to_keep E L C K eps2 = Inl e"
    unfolding points_to_keep_def using prune_loop_error_indep by blast
  ultimately show ?thesis by blast
qed

theorem keep_set_antimonotone_witness:
  "(9 / 100 :: real) \<le> 1 / 2
   \<and> points_to_keep [[1, 0], [0, 1], [1, 0]] [0, 1, 0] [[1, 0], [0, 1]] 2 (1 / 2)
       = Inr [[[1, 0], [1, 0]], [[0, 1]]]
   \<and> (\<exists>kept1. points_to_keep [[1, 0], [0, 1], [1, 0]] [0, 1, 0] [[1, 0], [0, 1]] 2 (9 / 100)
         = Inr kept1
       \<and> subseq [[[1, 0], [1, 0]], [[0, 1]]] kept1
       \<and> subseq (concat [[[1, 0], [1, 0]], [[0, 1 :: real]]]) (concat kept1))"
proof -
  have le: "(9 / 100 :: real) \<le> 1 / 2" by simp
  have val: "points_to_keep [[1, 0], [0, 1], [1, 0]] [0, 1, 0] [[1, 0], [0, 1]] 2 (1 / 2)
       = Inr [[[1, 0], [1, 0]], [[0, 1]]]"
    by (simp add: eval_simps)
  from keep_set_antimonotone [OF le, of "[[1, 0], [0, 1], [1, 0]]" "[0, 1, 0]"
      "[[1, 0], [0, 1]]" 2 ValueError "[[[1, 0], [1, 0]], [[0, 1]]]"] val le
  show ?thesis by blast
qed

text \<open>
  C5. For a non-empty cluster \<open>i\<close> of well-shaped arrays and \<open>0 < \<epsilon> < 1\<close>, the ranking
  returns a non-empty list, the pass of cluster \<open>i\<close> appends it to the keep list, so its
  first member (the one farthest from the centroid) is among the kept rows, and it still is
  in the keep list the whole loop returns.
\<close>

theorem first_ranked_member_kept:
  assumes "well_shaped E L C K d" "i < K" "int i \<in> set L" "0 < eps" "eps < 1"
  shows "\<exists>ranked. sort_by_centroid_distance (cluster_rows E L i) (C ! i) True = Inr ranked
     \<and> ranked \<noteq> []
     \<and> cluster_pass E L C eps i acc = Inr (acc @ [ranked])
     \<and> hd ranked \<in> set (concat (acc @ [ranked]))
     \<and> (points_to_keep E L C K eps = Inr kept \<longrightarrow> hd ranked \<in> set (concat kept))"
proof -
  from cluster_M_returns [OF assms(1-3)] obtain ranked
    where r: "sort_by_centroid_distance (cluster_rows E L i) (C ! i) True = Inr ranked"
      and ne: "ranked \<noteq> []"
      and m: "cluster_M E L C i = Inr (ranked, 0)"
    by blast
  from m assms(5) have p: "cluster_pass E L C eps i acc = Inr (acc @ [ranked])"
    by (simp add: cluster_pass_eq getitem_bool_def)
  have "hd ranked \<in> set (concat kept)" if "points_to_keep E L C K eps = Inr kept"
  proof -
    from that have "prune_loop E L C eps [0..<K] [] = Inr kept"
      by (simp add: points_to_keep_def)
    from prune_loop_keeps_cluster [OF this _ _ m] assms(2,5) have "ranked \<in> set kept"
      by simp
    moreover from ne have "hd ranked \<in> set ranked"
      by simp
    ultimately show ?thesis by auto
  qed
  with r ne p show ?thesis by auto
qed

theorem first_ranked_member_kept_witness:
  "well_shaped [[1, 0], [0, 1], [1, 0]] [0, 1, 0] [[1, 0], [0, 1]] 2 2
   \<and> int 0 \<in> set [0, 1, 0]
   \<and> points_to_keep [[1, 0], [0, 1], [1, 0]] [0, 1, 0] [[1, 0], [0, 1]] 2 (9 / 100)
       = Inr [[[1, 0], [1, 0]], [[0, 1]]]
   \<and> (\<exists>ranked. sort_by_centroid_distance
          (cluster_rows [[1, 0], [0, 1], [1, 0]] [0, 1, 0] 0) ([[1, 0], [0, 1]] ! 0) True = Inr ranked
        \<and> ranked \<noteq> []
        \<and> cluster_pass [[1, 0], [0, 1], [1, 0]] [0, 1, 0] [[1, 0], [0, 1]] (9 / 100) 0 []
            = Inr ([] @ [ranked])
        \<and> hd ranked \<in> set (concat [[[1, 0], [1, 0]], [[0, 1]]]))"
proof -
  have ws: "well_shaped [[1, 0], [0, 1], [1, 0]] [0, 1, 0] [[1, 0], [0, 1]] 2 2"
    by (simp add: well_shaped_def)
  have mem: "int 0 \<in> set [0, 1, 0]" by simp
  have val: "points_to_keep [[1, 0], [0, 1], [1, 0]] [0, 1, 0] [[1, 0], [0, 1]] 2 (9 / 100)
       = Inr [[[1, 0], [1, 0]], [[0, 1]]]"
    by (simp add: eval_simps)
  from first_ranked_member_kept [OF ws _ mem, of "9 / 100" "[]" "[[[1, 0], [1, 0]], [[0, 1]]]"]
    ws mem val
  show ?thesis by auto
qed

text \<open>
  C6. With \<open>descending=True\<close> the helper returns the rows it was given (the same rows
  with the same multiplicities) in an order in which the Euclidean distance to the
  centroid never increases, so that no row is farther from the centroid than the first
  row returned. It returns (does not raise) whenever all rows have the centroid's
  dimension.
\<close>

theorem sort_by_centroid_distance_descending:
  assumes "list_all (\<lambda>row. length row = length centroid) embeddings"
  shows "\<exists>ranked. sort_by_centroid_distance embeddings centroid True = Inr ranked
     \<and> mset ranked = mset embeddings
     \<and> sorted (rev (map (\<lambda>row. euclidean row centroid) ranked))
     \<and> list_all (\<lambda>row. euclidean row centroid \<le> euclidean (hd ranked) centroid) embeddings"
  using assms by (rule ranked_descending)

theorem sort_by_centroid_distance_descending_witness:
  "list_all (\<lambda>row. length row = length [0, 0 :: real]) [[0, 0], [3, 4]]
   \<and> sort_by_centroid_distance [[0, 0], [3, 4]] [0, 0] True = Inr [[3, 4], [0, 0]]
   \<and> (\<exists>ranked. sort_by_centroid_distance [[0, 0], [3, 4]] [0, 0] True = Inr ranked
     \<and> mset ranked = mset [[0, 0], [3, 4]]
     \<and> sorted (rev (map (\<lambda>row. euclidean row [0, 0]) ranked))
     \<and> list_all (\<lambda>row. euclidean row [0, 0] \<le> euclidean (hd ranked) [0, 0]) [[0, 0], [3, 4]])"
proof -
  have shape: "list_all (\<lambda>row. length row = length [0, 0 :: real]) [[0, 0], [3, 4]]"
    by simp
  have val: "sort_by_centroid_distance [[0, 0], [3, 4]] [0, 0] True = Inr [[3, 4], [0, 0]]"
    by (simp add: sort_by_centroid_distance_def cdist_def euclidean_def argsort_def upt_conv_Cons)
  from shape val sort_by_centroid_distance_descending [OF shape] show ?thesis
    by blast
qed

text \<open>
  C7. On \<open>N\<close> vectors of one dimension and \<open>K\<close> clusters, \<open>0 < K \<le> N\<close>, with a
  training step that yields \<open>K\<close> centroids, the partitioner returns, and every vector
  gets exactly one label in \<open>[0, K)\<close>: the member sets of the clusters (the positions
  the mask \<^verbatim>\<open>cluster_labels == i\<close> selects) cover \<open>[0, N)\<close> and are pairwise
  disjoint.
\<close>

theorem partition_complete_disjoint:
  assumes "0 < K" "K \<le> length vectors" "same_dimension vectors" "length (train vectors K) = K"
  shows "\<exists>centroids cluster_labels.
     partitioner train vectors K = Inr (centroids, cluster_labels)
     \<and> length centroids = K
     \<and> length cluster_labels = length vectors
     \<and> list_all (\<lambda>l. 0 \<le> l \<and> l < int K) cluster_labels
     \<and> (\<Union>i<K. set (cluster_members cluster_labels i)) = {0..<length vectors}
     \<and> (\<forall>i<K. \<forall>j<K. i \<noteq> j \<longrightarrow>
           set (cluster_members cluster_labels i) \<inter> set (cluster_members cluster_labels j) = {})"
proof -
  let ?cs = "train vectors K"
  let ?ls = "map (\<lambda>v. int (nearest_centroid ?cs v)) vectors"
  have ret: "partitioner train vectors K = Inr (?cs, ?ls)"
    using assms by (simp add: partitioner_def Let_def)
  from assms have "?cs \<noteq> []" by auto
  then have rng: "list_all (\<lambda>l. 0 \<le> l \<and> l < int K) ?ls"
    using nearest_centroid_bound [of ?cs] assms(4) by (simp add: list_all_iff)
  have cov: "(\<Union>i<K. set (cluster_members ?ls i)) = {0..<length vectors}"
    using members_cover [OF rng] by simp
  from ret assms(4) rng cov members_disjoint show ?thesis
    by (intro exI [of _ ?cs] exI [of _ ?ls]) simp
qed

theorem partition_complete_disjoint_witness:
  "partitioner (\<lambda>vs K. take K vs) [[1, 0], [0, 1], [1, 0]] 2 = Inr ([[1, 0], [0, 1]], [0, 1, 0])
   \<and> (\<exists>centroids cluster_labels.
     partitioner (\<lambda>vs K. take K vs) [[1, 0], [0, 1], [1, 0]] 2 = Inr (centroids, cluster_labels)
     \<and> length centroids = 2
     \<and> length cluster_labels = length [[1, 0], [0, 1], [1, 0 :: real]]
     \<and> list_all (\<lambda>l. 0 \<le> l \<and> l < int 2) cluster_labels
     \<and> (\<Union>i<2. set (cluster_members cluster_labels i)) = {0..<length [[1, 0], [0, 1], [1, 0 :: real]]})"
proof -
  have val: "partitioner (\<lambda>vs K. take K vs) [[1, 0], [0, 1], [1, 0]] 2
      = Inr ([[1, 0], [0, 1]], [0, 1, 0])"
    by (simp add: partitioner_def same_dimension_def nearest_centroid_def cosine_def dot_def
        normalize_row_def l2_norm_def Let_def)
  have "\<exists>centroids cluster_labels.
     partitioner (\<lambda>vs K. take K vs) [[1, 0], [0, 1], [1, 0]] 2 = Inr (centroids, cluster_labels)
     \<and> length centroids = 2
     \<and> length cluster_labels = length [[1, 0], [0, 1], [1, 0 :: real]]
     \<and> list_all (\<lambda>l. 0 \<le> l \<and> l < int 2) cluster_labels
     \<and> (\<Union>i<2. set (cluster_members cluster_labels i)) = {0..<length [[1, 0], [0, 1], [1, 0 :: real]]}
     \<and> (\<forall>i<2. \<forall>j<2. i \<noteq> j \<longrightarrow>
           set (cluster_members cluster_labels i) \<inter> set (cluster_members cluster_labels j) = {})"
    by (rule partition_complete_disjoint) (simp_all add: same_dimension_def)
  with val show ?thesis by blast
qed

text \<open>
  C8. With fewer vectors than requested clusters the partitioner fails with
  \<open>InsufficientData\<close>; no centroids and no assignment are produced.
\<close>

theorem insufficient_data:
  "length vectors < K \<Longrightarrow> partitioner train vectors K = Inl InsufficientData"
  by (simp add: partitioner_def)

theorem insufficient_data_witness:
  "length [[1, 0 :: real]] < 2
   \<and> partitioner (\<lambda>vs K. take K vs) [[1, 0]] 2 = Inl InsufficientData"
  using insufficient_data [of "[[1, 0]]" 2 "\<lambda>vs K. take K vs"] by simp

text \<open>
  C9. When the dataset after the embedding step does not have the length saved before it,
  the assertion fails and none of the statements after it (\<open>rest\<close>: normalisation,
  clustering, pruning, filtering) is run. The count the script compares is the number of
  rows of the mapped dataset, one row per embedded document.
\<close>

theorem length_mismatch_aborts:
  "length (dataset_map dataset) \<noteq> length dataset \<Longrightarrow>
   embed_and_check dataset_map rest dataset = Inl AssertionError"
  by (simp add: embed_and_check_def Let_def)

theorem length_mismatch_aborts_witness:
  "length (tl [''first'', ''second'']) \<noteq> length [''first'', ''second'']
   \<and> embed_and_check tl
        (\<lambda>rows. dedup rows [[1, 0], [1, 0]] [0, 0] [[1, 0]] 1 (9 / 100))
        [''first'', ''second''] = Inl AssertionError"
  using length_mismatch_aborts [of tl "[''first'', ''second'']"
      "\<lambda>rows. dedup rows [[1, 0], [1, 0]] [0, 0] [[1, 0]] 1 (9 / 100)"]
  by simp

text \<open>
  C10. The claim: on an assignment with an empty cluster the pass raises an index error,
  when it reduces the empty similarity matrix, from element 0 of an empty list of column
  maxima. With one vector labelled 0 and two clusters, cluster 1 is empty: the mask selects
  no row, the ranking returns the empty array, and the similarity computation refuses it
  with a ValueError. No similarity matrix comes into being, so neither the reduction nor
  the indexing is reached, and the error of the pass and of the loop is a ValueError, not
  an index error.
\<close>

theorem empty_cluster_raises_index_error_counterexample:
  "getitem_mask [[1, 0 :: real]] (map (\<lambda>l. l = int 1) [0]) = Inr []
   \<and> sort_by_centroid_distance [] ([[1, 0], [0, 1]] ! 1) True = Inr []
   \<and> cosine_similarity [] = Inl ValueError
   \<and> cluster_M [[1, 0]] [0] [[1, 0], [0, 1]] 1 = Inl ValueError
   \<and> points_to_keep [[1, 0]] [0] [[1, 0], [0, 1]] 2 (9 / 100) = Inl ValueError
   \<and> points_to_keep [[1, 0]] [0] [[1, 0], [0, 1]] 2 (9 / 100) \<noteq> Inl IndexError"
  by (simp add: eval_simps)

text \<open>
  C10, amended. For every assignment with one label per embedding and one centroid per
  cluster in which some cluster \<open>i < K\<close> has no member: in the pass of cluster \<open>i\<close> the
  mask selects no row, the centroid is found, the ranking returns the empty array, and the
  similarity computation refuses that array with a ValueError, which is the error of the
  pass. The error arises at the cosine similarity, before any similarity matrix exists to
  be reduced or indexed; the cluster is not skipped, and the whole loop ends in ValueError:
  the pruning loop is not total over the assignments a partitioner may return.
\<close>

theorem empty_cluster_raises_value_error:
  assumes "length L = length E" "length C = K" "i < K" "int i \<notin> set L"
  shows "getitem_mask E (map (\<lambda>l. l = int i) L) = Inr []
     \<and> getitem C i = Inr (C ! i)
     \<and> sort_by_centroid_distance [] (C ! i) True = Inr []
     \<and> cosine_similarity [] = Inl ValueError
     \<and> cluster_M E L C i = Inl ValueError
     \<and> cluster_pass E L C eps i acc = Inl ValueError
     \<and> points_to_keep E L C K eps = Inl ValueError"
proof -
  from assms have i: "i < length C" by simp
  have sel: "getitem_mask E (map (\<lambda>l. l = int i) L) = Inr []"
    using getitem_mask_labels [OF assms(1), of i] cluster_rows_empty [OF assms(4), of E]
    by simp
  have cen: "getitem C i = Inr (C ! i)"
    using i by (simp add: getitem_def)
  have rank: "sort_by_centroid_distance [] (C ! i) True = Inr []"
    by (simp add: sort_by_centroid_distance_def cdist_def argsort_def)
  have sim: "cosine_similarity [] = Inl ValueError"
    by (simp add: cosine_similarity_def)
  have m: "cluster_M E L C i = Inl ValueError"
    by (simp add: cluster_M_def sel cen rank sim)
  then have pass: "cluster_pass E L C eps i acc = Inl ValueError"
    by (simp add: cluster_pass_def)
  have "prune_loop E L C eps [0..<K] [] = Inl ValueError"
    by (rule prune_loop_empty_cluster [OF assms(1) _ _ assms(4)])
      (use assms in \<open>simp_all add: list_all_iff\<close>)
  then have loop: "points_to_keep E L C K eps = Inl ValueError"
    by (simp add: points_to_keep_def)
  from sel cen rank sim m pass loop show ?thesis by blast
qed

theorem empty_cluster_raises_value_error_witness:
  "length [0 :: int] = length [[1, 0 :: real]] \<and> int 1 \<notin> set [0]
   \<and> getitem_mask [[1, 0 :: real]] (map (\<lambda>l. l = int 1) [0]) = Inr []
   \<and> sort_by_centroid_distance [] ([[1, 0], [0, 1]] ! 1) True = Inr []
   \<and> cosine_similarity [] = Inl ValueError
   \<and> cluster_M [[1, 0]] [0] [[1, 0], [0, 1]] 1 = Inl ValueError
   \<and> cluster_pass [[1, 0]] [0] [[1, 0], [0, 1]] (9 / 100) 1 [[[1, 0]]] = Inl ValueError
   \<and> points_to_keep [[1, 0]] [0] [[1, 0], [0, 1]] 2 (9 / 100) = Inl ValueError"
  using empty_cluster_raises_value_error [of "[0]" "[[1, 0]]" "[[1, 0], [0, 1]]" 2 1
      "9 / 100" "[[[1, 0]]]"]
  by simp

end
